theory Spec2Isabelle
  imports Main
begin

section \<open>The session store of the BRET application\<close>

text \<open>
  \<^verbatim>\<open>src/app.py\<close> is a Streamlit script: every user interaction runs the whole script
  once, from top to bottom, against the per-browser-session store \<^verbatim>\<open>st.session_state\<close>.
  The store is the only state of the program. All nine keys are written together by
  \<^verbatim>\<open>_reset_game\<close>, which \<^verbatim>\<open>_ensure_state\<close> calls before anything reads them, so the
  store is either empty (a new browser session; \<open>None\<close> below) or holds every key
  (\<open>Some\<close> of the record).

  Python integers are unbounded: \<open>int\<close>. Python's \<^verbatim>\<open>None\<close> in \<^verbatim>\<open>payoff\<close> and
  \<^verbatim>\<open>outcome\<close> is \<open>None\<close> of an option type. A leading underscore is not part of an
  Isabelle name, so \<^verbatim>\<open>_reset_game\<close>, \<^verbatim>\<open>_compute_payoff\<close>, \<^verbatim>\<open>_ensure_state\<close> and
  \<^verbatim>\<open>_cell_label\<close> lose theirs.
\<close>

record session_state =
  n :: int
  cols :: int
  payoff_per_box :: int
  bomb_idx :: int
  opened :: int
  revealed :: bool
  payoff :: "int option"
  outcome :: "string option"
  run_id :: string

datatype error = ValueError

definition DEFAULT_N :: int where
  "DEFAULT_N = 100"

definition DEFAULT_COLS :: int where
  "DEFAULT_COLS = 10"

definition DEFAULT_PAYOFF_PER_BOX :: int where
  "DEFAULT_PAYOFF_PER_BOX = 10"

subsection \<open>The library calls the script makes\<close>

text \<open>
  \<^verbatim>\<open>random.randint(a, b)\<close> returns some integer \<open>N\<close> with \<open>a \<le> N \<le> b\<close> and raises
  \<^verbatim>\<open>ValueError\<close> on an empty range. The generator's raw draw is an argument, so the
  function is deterministic here and every value of the range is the image of some draw.
\<close>

definition randint :: "int \<Rightarrow> int \<Rightarrow> int \<Rightarrow> error + int" where
  "randint a b raw = (if b < a then Inl ValueError else Inr (a + raw mod (b - a + 1)))"

text \<open>Decimal rendering of integers, as \<^verbatim>\<open>str\<close> and f-strings do.\<close>

definition digit_char :: "nat \<Rightarrow> char" where
  "digit_char d = ''0123456789'' ! d"

fun str_nat :: "nat \<Rightarrow> string" where
  "str_nat k = (if k < 10 then [digit_char k] else str_nat (k div 10) @ [digit_char (k mod 10)])"

declare str_nat.simps [simp del]

definition str_int :: "int \<Rightarrow> string" where
  "str_int i = (if i < 0 then CHR ''-'' # str_nat (nat (- i)) else str_nat (nat i))"

definition zfill :: "nat \<Rightarrow> string \<Rightarrow> string" where
  "zfill w t = replicate (w - length t) CHR ''0'' @ t"

text \<open>
  \<^verbatim>\<open>datetime.now()\<close> read to the second (the format below drops the microseconds), and
  \<^verbatim>\<open>strftime("%Y%m%d-%H%M%S")\<close>: every field in decimal, padded with zeros to its width.
\<close>

record datetime =
  year :: nat
  month :: nat
  day :: nat
  hour :: nat
  minute :: nat
  second :: nat

definition strftime_run_id :: "datetime \<Rightarrow> string" where
  "strftime_run_id t =
     zfill 4 (str_nat (year t)) @ zfill 2 (str_nat (month t)) @ zfill 2 (str_nat (day t))
     @ ''-'' @ zfill 2 (str_nat (hour t)) @ zfill 2 (str_nat (minute t))
     @ zfill 2 (str_nat (second t))"

text \<open>
  What \<^verbatim>\<open>datetime.now()\<close> can return: a date of the years 1000 to 9999 and a time of day.
\<close>

definition clock_reading :: "datetime \<Rightarrow> bool" where
  "clock_reading t =
     (1000 \<le> year t \<and> year t \<le> 9999 \<and> 1 \<le> month t \<and> month t \<le> 12
      \<and> 1 \<le> day t \<and> day t \<le> 31 \<and> hour t < 24 \<and> minute t < 60 \<and> second t < 60)"

text \<open>
  A button of the page, as the browser names it when it reports a click. Streamlit
  identifies a widget that has no \<^verbatim>\<open>key\<close> by its kind and its arguments. Of the three
  buttons that act, only "Open next box" has a label that changes from run to run (it
  carries the number of the next box), so the label is part of the name of that button.
\<close>

datatype button = NewGame | OpenNext string | StopReveal

text \<open>
  \<^verbatim>\<open>st.button(label, disabled=d)\<close> returns \<^verbatim>\<open>True\<close> in the run that a click on this very
  button starts. The click of a button that the run does not build, one under another
  label, is not delivered: the call returns \<^verbatim>\<open>False\<close>. A disabled button is not
  clickable in the browser, so it never reports a click. The first argument is the button
  the call builds, the last the click that the browser reports to the run, if any.
\<close>

definition st_button :: "button \<Rightarrow> bool \<Rightarrow> button option \<Rightarrow> bool" where
  "st_button w disabled ev = (ev = Some w \<and> \<not> disabled)"

section \<open>Helpers of the script\<close>

text \<open>
  \<^verbatim>\<open>_reset_game(n_boxes)\<close>, lines 16 to 26. The draw of the generator and the clock reading
  are its two extra arguments; the store it runs on is the fourth. When \<^verbatim>\<open>randint\<close>
  raises, the script run ends with the exception.
\<close>

definition reset_game ::
  "int \<Rightarrow> int \<Rightarrow> datetime \<Rightarrow> session_state option \<Rightarrow> error + session_state" where
  "reset_game n_boxes raw now st =
     (case randint 1 n_boxes raw of
        Inl e \<Rightarrow> Inl e
      | Inr b \<Rightarrow>
          Inr \<lparr> n = n_boxes,
                cols = DEFAULT_COLS,
                payoff_per_box =
                  (case st of None \<Rightarrow> DEFAULT_PAYOFF_PER_BOX | Some s \<Rightarrow> payoff_per_box s),
                bomb_idx = b,
                opened = 0,
                revealed = False,
                payoff = None,
                outcome = None,
                run_id = strftime_run_id now \<rparr>)"

text \<open>\<^verbatim>\<open>_compute_payoff()\<close>, lines 28 to 35.\<close>

definition compute_payoff :: "session_state \<Rightarrow> session_state" where
  "compute_payoff s =
     (if bomb_idx s \<le> opened s
      then s\<lparr> outcome := Some ''bombed'', payoff := Some 0 \<rparr>
      else s\<lparr> outcome := Some ''safe'', payoff := Some (opened s * payoff_per_box s) \<rparr>)"

text \<open>\<^verbatim>\<open>_ensure_state()\<close>, lines 37 to 39: the test \<^verbatim>\<open>"n" not in st.session_state\<close>.\<close>

definition ensure_state ::
  "int \<Rightarrow> datetime \<Rightarrow> session_state option \<Rightarrow> error + session_state" where
  "ensure_state raw now st =
     (case st of None \<Rightarrow> reset_game DEFAULT_N raw now st | Some s \<Rightarrow> Inr s)"

section \<open>The controls\<close>

text \<open>
  The sidebar, lines 47 to 49: the value of the "Payoff per safe box" input is stored
  whenever it differs from the stored one, on every run of the script.
\<close>

definition sidebar_payoff :: "int \<Rightarrow> session_state \<Rightarrow> session_state" where
  "sidebar_payoff payoff_val s =
     (if payoff_val \<noteq> payoff_per_box s then s\<lparr> payoff_per_box := payoff_val \<rparr> else s)"

text \<open>
  The "New Participant / New Game" button, lines 56 to 59. \<^verbatim>\<open>st.rerun()\<close> ends the run
  there; the rerun is a further run of the script with no button clicked.
\<close>

definition new_game ::
  "int \<Rightarrow> int \<Rightarrow> int \<Rightarrow> datetime \<Rightarrow> session_state \<Rightarrow> error + session_state" where
  "new_game n_val cols_val raw now s =
     (case reset_game n_val raw now (Some s) of
        Inl e \<Rightarrow> Inl e
      | Inr s' \<Rightarrow> Inr (s'\<lparr> cols := cols_val \<rparr>))"

text \<open>
  The "Open next box" button, lines 81 to 87. Its label, line 83, is built from the count
  of the store as the run finds it, before the handler adds 1; U+1F4E6 (package) is
  written as its UTF-8 bytes. The handlers take the click that the browser reports.
\<close>

definition PACKAGE :: string where
  "PACKAGE = [CHR 0xF0, CHR 0x9F, CHR 0x93, CHR 0xA6]"

definition open_label :: "session_state \<Rightarrow> string" where
  "open_label s = PACKAGE @ '' Open next box (#'' @ str_int (opened s + 1) @ '')''"

definition disabled_open :: "session_state \<Rightarrow> bool" where
  "disabled_open s = (revealed s \<or> opened s \<ge> n s)"

definition open_next :: "button option \<Rightarrow> session_state \<Rightarrow> session_state" where
  "open_next ev s =
     (if st_button (OpenNext (open_label s)) (disabled_open s) ev
      then s\<lparr> opened := opened s + 1 \<rparr> else s)"

text \<open>The "Stop & Reveal" button, lines 91 to 97; its label is always the same.\<close>

definition disabled_stop :: "session_state \<Rightarrow> bool" where
  "disabled_stop s = (revealed s \<or> opened s = 0)"

definition stop :: "button option \<Rightarrow> session_state \<Rightarrow> session_state" where
  "stop ev s =
     (if st_button StopReveal (disabled_stop s) ev
      then (compute_payoff s)\<lparr> revealed := True \<rparr> else s)"

section \<open>One run of the script\<close>

text \<open>
  What the browser hands to one run: the values of the three sidebar inputs, the button
  whose click started the run (at most one, named as the page showed it), and what the
  generator and the clock would give to the reset of \<^verbatim>\<open>_ensure_state\<close> and to the reset
  of the "New Game" button.
\<close>

record inputs =
  payoff_val :: int
  n_val :: int
  cols_val :: int
  clicked :: "button option"
  boot_raw :: int
  boot_now :: datetime
  click_raw :: int
  click_now :: datetime

text \<open>
  The bounds the sidebar widgets enforce on what they return (lines 47, 51 and 52):
  \<^verbatim>\<open>min_value=1\<close>; \<^verbatim>\<open>min_value=10, max_value=200\<close>; \<^verbatim>\<open>min_value=5, max_value=20\<close>.
\<close>

definition valid_inputs :: "inputs \<Rightarrow> bool" where
  "valid_inputs inp =
     (1 \<le> payoff_val inp \<and> 10 \<le> n_val inp \<and> n_val inp \<le> 200
      \<and> 5 \<le> cols_val inp \<and> cols_val inp \<le> 20)"

text \<open>
  The state-changing statements of the script in their order: line 42, lines 47 to 49,
  lines 56 to 59, lines 81 to 87, lines 91 to 97. The rest of the script only displays.
\<close>

definition script_run :: "inputs \<Rightarrow> session_state option \<Rightarrow> error + session_state" where
  "script_run inp st =
     (case ensure_state (boot_raw inp) (boot_now inp) st of
        Inl e \<Rightarrow> Inl e
      | Inr s0 \<Rightarrow>
          (let s1 = sidebar_payoff (payoff_val inp) s0 in
           if st_button NewGame False (clicked inp)
           then new_game (n_val inp) (cols_val inp) (click_raw inp) (click_now inp) s1
           else Inr (stop (clicked inp) (open_next (clicked inp) s1))))"

text \<open>
  The runs of the script one after the other, on the same store. The clicks are those
  that the list gives, whatever the page showed: every session of a browser is such a
  list, and the next section picks out the lists that a browser can produce.
\<close>

fun script_runs :: "inputs list \<Rightarrow> session_state option \<Rightarrow> error + session_state option" where
  "script_runs [] st = Inr st"
| "script_runs (inp # inps) st =
     (case script_run inp st of
        Inl e \<Rightarrow> Inl e
      | Inr s \<Rightarrow> script_runs inps (Some s))"

definition no_new_game :: "inputs \<Rightarrow> bool" where
  "no_new_game inp = (clicked inp \<noteq> Some NewGame)"

section \<open>The page in the browser\<close>

text \<open>
  The label under which a run leaves the "Open next box" button on the page. The button
  is built at line 83 from the store as it is then; the handler of line 87 adds 1 to the
  count afterwards and does not run the script again, so after a click that opened a box
  the page still shows the label of the count before the click. The handlers of "New
  Game" and "Stop & Reveal" end with \<^verbatim>\<open>st.rerun()\<close>: the script runs once more, without
  a click and with the same sidebar values, which changes nothing in the store and
  builds the button from the store as the handler left it.
\<close>

definition page_open :: "inputs \<Rightarrow> session_state option \<Rightarrow> error + string" where
  "page_open inp st =
     (case ensure_state (boot_raw inp) (boot_now inp) st of
        Inl e \<Rightarrow> Inl e
      | Inr s0 \<Rightarrow>
          (let s1 = sidebar_payoff (payoff_val inp) s0 in
           if st_button NewGame False (clicked inp)
           then (case new_game (n_val inp) (cols_val inp) (click_raw inp) (click_now inp) s1 of
                   Inl e \<Rightarrow> Inl e
                 | Inr s' \<Rightarrow> Inr (open_label s'))
           else (let s2 = open_next (clicked inp) s1 in
                 if st_button StopReveal (disabled_stop s2) (clicked inp)
                 then Inr (open_label (stop (clicked inp) s2))
                 else Inr (open_label s1))))"

text \<open>
  What the user does on the page, and the click that the browser reports for it: a click
  on "Open next box" names the button by the label that the page shows.
\<close>

datatype gesture = Edit | ClickNewGame | ClickOpen | ClickStop

definition event :: "string \<Rightarrow> gesture \<Rightarrow> button option" where
  "event shown g =
     (case g of
        Edit \<Rightarrow> None
      | ClickNewGame \<Rightarrow> Some NewGame
      | ClickOpen \<Rightarrow> Some (OpenNext shown)
      | ClickStop \<Rightarrow> Some StopReveal)"

text \<open>
  A series of gestures on a page that shows the button under the label \<open>shown\<close>, over the
  store \<open>s\<close>: each gesture starts one run, with the sidebar values and draws of its
  inputs, and the run leaves the next page.
\<close>

fun browser_runs ::
  "(gesture \<times> inputs) list \<Rightarrow> session_state \<times> string \<Rightarrow> error + session_state \<times> string" where
  "browser_runs [] page = Inr page"
| "browser_runs ((g, inp) # steps) (s, shown) =
     (case script_run (inp\<lparr> clicked := event shown g \<rparr>) (Some s) of
        Inl e \<Rightarrow> Inl e
      | Inr s' \<Rightarrow>
          (case page_open (inp\<lparr> clicked := event shown g \<rparr>) (Some s) of
             Inl e \<Rightarrow> Inl e
           | Inr shown' \<Rightarrow> browser_runs steps (s', shown')))"

text \<open>
  A whole session of a browser: the first run, on an empty store and with no page to
  click on, then the gestures.
\<close>

definition browser_session ::
  "inputs \<Rightarrow> (gesture \<times> inputs) list \<Rightarrow> error + session_state \<times> string" where
  "browser_session first steps =
     (case script_run (first\<lparr> clicked := None \<rparr>) None of
        Inl e \<Rightarrow> Inl e
      | Inr s \<Rightarrow>
          (case page_open (first\<lparr> clicked := None \<rparr>) None of
             Inl e \<Rightarrow> Inl e
           | Inr shown \<Rightarrow> browser_runs steps (s, shown)))"

section \<open>What the script displays\<close>

text \<open>
  The emoji and symbols of the source, as their UTF-8 bytes: U+1F4A3 (bomb), U+1F7E9
  (green square), U+25FB U+FE0F (white square), U+1F4A5 (collision), U+2705 (check mark),
  U+2192 (arrow), U+00D7 (multiplication sign).
\<close>

definition BOMB :: string where
  "BOMB = [CHR 0xF0, CHR 0x9F, CHR 0x92, CHR 0xA3]"

definition GREEN :: string where
  "GREEN = [CHR 0xF0, CHR 0x9F, CHR 0x9F, CHR 0xA9]"

definition BLANK :: string where
  "BLANK = [CHR 0xE2, CHR 0x97, CHR 0xBB, CHR 0xEF, CHR 0xB8, CHR 0x8F]"

definition BOOM :: string where
  "BOOM = [CHR 0xF0, CHR 0x9F, CHR 0x92, CHR 0xA5]"

definition CHECK :: string where
  "CHECK = [CHR 0xE2, CHR 0x9C, CHR 0x85]"

definition ARROW :: string where
  "ARROW = [CHR 0xE2, CHR 0x86, CHR 0x92]"

definition TIMES :: string where
  "TIMES = [CHR 0xC3, CHR 0x97]"

definition str_opt_int :: "int option \<Rightarrow> string" where
  "str_opt_int v = (case v of None \<Rightarrow> ''None'' | Some i \<Rightarrow> str_int i)"

text \<open>The status line, lines 64 to 76: the text handed to \<^verbatim>\<open>st.subheader\<close>.\<close>

definition status_line :: "session_state \<Rightarrow> string" where
  "status_line s =
     (if \<not> revealed s
      then ''Boxes opened: **'' @ str_int (opened s) @ '' / '' @ str_int (n s) @ ''**''
      else if outcome s = Some ''bombed''
      then BOOM @ '' Bomb was in box **'' @ str_int (bomb_idx s) @ ''** '' @ ARROW
           @ '' **Payoff: 0**''
      else CHECK @ '' Safe! Bomb was in box **'' @ str_int (bomb_idx s) @ ''** '' @ ARROW
           @ '' **Payoff: '' @ str_opt_int (payoff s) @ ''** ('' @ str_int (opened s)
           @ '' '' @ TIMES @ '' '' @ str_int (payoff_per_box s) @ '')'')"

text \<open>\<^verbatim>\<open>_cell_label(i)\<close>, lines 122 to 140, and the text of grid cell \<open>i\<close>, line 150.\<close>

definition cell_label :: "session_state \<Rightarrow> int \<Rightarrow> string" where
  "cell_label s i =
     (if revealed s
      then (if i = bomb_idx s then BOMB
            else if i \<le> opened s \<and> i \<noteq> bomb_idx s then GREEN
            else BLANK)
      else (if i \<le> opened s then GREEN else BLANK))"

definition cell_text :: "session_state \<Rightarrow> int \<Rightarrow> string" where
  "cell_text s i = cell_label s i @ '' '' @ str_int i"

text \<open>The dictionary of the "Session details / export" expander, lines 161 to 169.\<close>

datatype pyval = PyInt int | PyStr string | PyNone

definition py_opt_int :: "int option \<Rightarrow> pyval" where
  "py_opt_int v = (case v of None \<Rightarrow> PyNone | Some i \<Rightarrow> PyInt i)"

definition py_opt_str :: "string option \<Rightarrow> pyval" where
  "py_opt_str v = (case v of None \<Rightarrow> PyNone | Some t \<Rightarrow> PyStr t)"

definition export_record :: "session_state \<Rightarrow> (string \<times> pyval) list" where
  "export_record s =
     [(''run_id'', PyStr (run_id s)),
      (''n_boxes'', PyInt (n s)),
      (''opened'', PyInt (opened s)),
      (''bomb_index'',
         if revealed s then PyInt (bomb_idx s) else PyStr ''(hidden until reveal)''),
      (''payoff_per_box'', PyInt (payoff_per_box s)),
      (''outcome'', if revealed s then py_opt_str (outcome s) else PyStr ''(not revealed)''),
      (''payoff'', if revealed s then py_opt_int (payoff s) else PyStr ''(not revealed)'')]"

section \<open>Well-formed states\<close>

text \<open>
  The properties that every state of a session has (shown below): the bomb is in one of
  the boxes, the count of opened boxes is between 0 and the number of boxes, the payoff
  per box is at least 1, outcome and payoff are set exactly when the state is revealed,
  and a revealed state has at least one box opened.
\<close>

definition wf_state :: "session_state \<Rightarrow> bool" where
  "wf_state s =
     (1 \<le> bomb_idx s \<and> bomb_idx s \<le> n s \<and> 0 \<le> opened s \<and> opened s \<le> n s
      \<and> 1 \<le> payoff_per_box s
      \<and> (if revealed s then outcome s \<noteq> None \<and> payoff s \<noteq> None \<and> 1 \<le> opened s
         else outcome s = None \<and> payoff s = None))"

text \<open>Inputs and states of the scenarios evaluated below.\<close>

definition t0 :: datetime where
  "t0 = \<lparr> year = 2026, month = 3, day = 7, hour = 9, minute = 5, second = 42 \<rparr>"

definition scenario :: "int \<Rightarrow> int \<Rightarrow> session_state" where
  "scenario b k =
     \<lparr> n = 10, cols = 10, payoff_per_box = 10, bomb_idx = b, opened = k, revealed = False,
       payoff = None, outcome = None, run_id = ''20260307-090542'' \<rparr>"

definition click :: "button option \<Rightarrow> int \<Rightarrow> inputs" where
  "click b p =
     \<lparr> payoff_val = p, n_val = 10, cols_val = 10, clicked = b,
       boot_raw = 4, boot_now = t0, click_raw = 4, click_now = t0 \<rparr>"

text \<open>A click on the "Open next box" button of a page built with \<open>k\<close> boxes opened.\<close>

definition click_open :: "int \<Rightarrow> int \<Rightarrow> inputs" where
  "click_open k p = click (Some (OpenNext (open_label (scenario 5 k)))) p"

section \<open>Properties of the library calls\<close>

lemma randint_range:
  assumes "a \<le> b"
  shows "\<exists>v. randint a b raw = Inr v \<and> a \<le> v \<and> v \<le> b"
proof -
  have pos: "0 < b - a + 1" using assms by simp
  have lo: "0 \<le> raw mod (b - a + 1)" using pos by (rule pos_mod_sign)
  have hi: "raw mod (b - a + 1) < b - a + 1" using pos by (rule pos_mod_bound)
  from assms lo hi show ?thesis unfolding randint_def by auto
qed

lemma randint_onto:
  "a \<le> v \<Longrightarrow> v \<le> b \<Longrightarrow> randint a b (v - a) = Inr v"
  by (simp add: randint_def)

text \<open>The run id format writes every clock reading as fifteen characters, one to one.\<close>

lemma digit_char_cases:
  "d < 10 \<Longrightarrow> d = 0 \<or> d = 1 \<or> d = 2 \<or> d = 3 \<or> d = 4 \<or> d = 5 \<or> d = 6 \<or> d = 7 \<or> d = 8 \<or> d = (9::nat)"
  by arith

lemma of_char_digit_char: "d < 10 \<Longrightarrow> of_char (digit_char d) = 48 + d"
  using digit_char_cases [of d] by (auto simp: digit_char_def)

lemma digit_char_inj:
  assumes "d < 10" and "e < 10" and "digit_char d = digit_char e"
  shows "d = e"
proof -
  from assms(3) have "(of_char (digit_char d) :: nat) = of_char (digit_char e)" by simp
  with assms(1,2) show ?thesis by (simp add: of_char_digit_char)
qed

lemma digit_char_0: "digit_char 0 = CHR ''0''"
  by (simp add: digit_char_def)

lemma str_nat_digit: "k < 10 \<Longrightarrow> str_nat k = [digit_char k]"
  by (simp add: str_nat.simps)

lemma str_nat_two: "10 \<le> k \<Longrightarrow> k < 100 \<Longrightarrow> str_nat k = [digit_char (k div 10), digit_char (k mod 10)]"
  by (subst str_nat.simps) (simp add: str_nat_digit)

lemma str_nat_three:
  "100 \<le> k \<Longrightarrow> k < 1000 \<Longrightarrow>
     str_nat k = [digit_char (k div 100), digit_char (k div 10 mod 10), digit_char (k mod 10)]"
  by (subst str_nat.simps) (simp add: str_nat_two div_mult2_eq [symmetric])

lemma str_nat_four:
  "1000 \<le> k \<Longrightarrow> k < 10000 \<Longrightarrow>
     str_nat k = [digit_char (k div 1000), digit_char (k div 100 mod 10),
                  digit_char (k div 10 mod 10), digit_char (k mod 10)]"
  by (subst str_nat.simps) (simp add: str_nat_three div_mult2_eq [symmetric])

lemma replicate_small:
  "replicate 1 x = [x]" "replicate 2 x = [x, x]" "replicate 3 x = [x, x, x]"
  by (simp_all add: numeral_2_eq_2 numeral_3_eq_3)

lemma zfill2:
  assumes "k < 100"
  shows "zfill 2 (str_nat k) = [digit_char (k div 10), digit_char (k mod 10)]"
proof (cases "k < 10")
  case True
  then show ?thesis by (simp add: zfill_def str_nat_digit digit_char_0 replicate_small)
next
  case False
  with assms show ?thesis by (simp add: zfill_def str_nat_two)
qed

lemma zfill4:
  assumes "k < 10000"
  shows "zfill 4 (str_nat k) =
           [digit_char (k div 1000), digit_char (k div 100 mod 10),
            digit_char (k div 10 mod 10), digit_char (k mod 10)]"
proof -
  consider "k < 10" | "10 \<le> k" "k < 100" | "100 \<le> k" "k < 1000" | "1000 \<le> k"
    by linarith
  then show ?thesis
  proof cases
    case 1
    then show ?thesis by (simp add: zfill_def str_nat_digit digit_char_0 replicate_small)
  next
    case 2
    then show ?thesis by (simp add: zfill_def str_nat_two digit_char_0 replicate_small)
  next
    case 3
    then show ?thesis by (simp add: zfill_def str_nat_three digit_char_0 replicate_small)
  next
    case 4
    with assms show ?thesis by (simp add: zfill_def str_nat_four)
  qed
qed

lemma two_digits_inj:
  assumes "j < 100" and "k < 100"
    and "digit_char (j div 10) = digit_char (k div 10)"
    and "digit_char (j mod 10) = digit_char (k mod 10)"
  shows "j = k"
proof -
  from assms(1,2) have "j div 10 < 10" "k div 10 < 10" "j mod 10 < 10" "k mod 10 < 10"
    by simp_all
  with assms(3,4) have "j div 10 = k div 10" and "j mod 10 = k mod 10"
    by (blast intro: digit_char_inj)+
  then show ?thesis by (metis div_mult_mod_eq)
qed

lemma four_digits_inj:
  assumes "j < 10000" and "k < 10000"
    and "digit_char (j div 1000) = digit_char (k div 1000)"
    and "digit_char (j div 100 mod 10) = digit_char (k div 100 mod 10)"
    and "digit_char (j div 10 mod 10) = digit_char (k div 10 mod 10)"
    and "digit_char (j mod 10) = digit_char (k mod 10)"
  shows "j = k"
proof -
  from assms(1,2) have "j div 1000 < 10" "k div 1000 < 10" by simp_all
  with assms(3) have a: "j div 1000 = k div 1000" by (blast intro: digit_char_inj)
  have "j div 100 mod 10 < 10" "k div 100 mod 10 < 10" by simp_all
  with assms(4) have b: "j div 100 mod 10 = k div 100 mod 10" by (blast intro: digit_char_inj)
  have "j div 10 mod 10 < 10" "k div 10 mod 10 < 10" by simp_all
  with assms(5) have c: "j div 10 mod 10 = k div 10 mod 10" by (blast intro: digit_char_inj)
  have "j mod 10 < 10" "k mod 10 < 10" by simp_all
  with assms(6) have d: "j mod 10 = k mod 10" by (blast intro: digit_char_inj)
  have "j div 100 div 10 = k div 100 div 10" using a by (simp add: div_mult2_eq [symmetric])
  with b have e: "j div 100 = k div 100" by (metis div_mult_mod_eq)
  then have "j div 10 div 10 = k div 10 div 10" by (simp add: div_mult2_eq [symmetric])
  with c have "j div 10 = k div 10" by (metis div_mult_mod_eq)
  with d show ?thesis by (metis div_mult_mod_eq)
qed

lemma strftime_digits:
  assumes "clock_reading t"
  shows "strftime_run_id t =
           [digit_char (year t div 1000), digit_char (year t div 100 mod 10),
            digit_char (year t div 10 mod 10), digit_char (year t mod 10),
            digit_char (month t div 10), digit_char (month t mod 10),
            digit_char (day t div 10), digit_char (day t mod 10),
            CHR ''-'',
            digit_char (hour t div 10), digit_char (hour t mod 10),
            digit_char (minute t div 10), digit_char (minute t mod 10),
            digit_char (second t div 10), digit_char (second t mod 10)]"
proof -
  from assms have "year t < 10000" "month t < 100" "day t < 100" "hour t < 100"
    "minute t < 100" "second t < 100"
    by (simp_all add: clock_reading_def)
  then show ?thesis by (simp add: strftime_run_id_def zfill2 zfill4)
qed

lemma strftime_run_id_inj:
  assumes "clock_reading t" and "clock_reading u"
    and "strftime_run_id t = strftime_run_id u"
  shows "t = u"
proof -
  from assms(1) have t: "year t < 10000" "month t < 100" "day t < 100" "hour t < 100"
    "minute t < 100" "second t < 100"
    by (simp_all add: clock_reading_def)
  from assms(2) have u: "year u < 10000" "month u < 100" "day u < 100" "hour u < 100"
    "minute u < 100" "second u < 100"
    by (simp_all add: clock_reading_def)
  from assms(3) have eq:
    "digit_char (year t div 1000) = digit_char (year u div 1000)"
    "digit_char (year t div 100 mod 10) = digit_char (year u div 100 mod 10)"
    "digit_char (year t div 10 mod 10) = digit_char (year u div 10 mod 10)"
    "digit_char (year t mod 10) = digit_char (year u mod 10)"
    "digit_char (month t div 10) = digit_char (month u div 10)"
    "digit_char (month t mod 10) = digit_char (month u mod 10)"
    "digit_char (day t div 10) = digit_char (day u div 10)"
    "digit_char (day t mod 10) = digit_char (day u mod 10)"
    "digit_char (hour t div 10) = digit_char (hour u div 10)"
    "digit_char (hour t mod 10) = digit_char (hour u mod 10)"
    "digit_char (minute t div 10) = digit_char (minute u div 10)"
    "digit_char (minute t mod 10) = digit_char (minute u mod 10)"
    "digit_char (second t div 10) = digit_char (second u div 10)"
    "digit_char (second t mod 10) = digit_char (second u mod 10)"
    unfolding strftime_digits [OF assms(1)] strftime_digits [OF assms(2)] by simp_all
  have "year t = year u" using t(1) u(1) eq(1-4) by (rule four_digits_inj)
  moreover have "month t = month u" using t(2) u(2) eq(5,6) by (rule two_digits_inj)
  moreover have "day t = day u" using t(3) u(3) eq(7,8) by (rule two_digits_inj)
  moreover have "hour t = hour u" using t(4) u(4) eq(9,10) by (rule two_digits_inj)
  moreover have "minute t = minute u" using t(5) u(5) eq(11,12) by (rule two_digits_inj)
  moreover have "second t = second u" using t(6) u(6) eq(13,14) by (rule two_digits_inj)
  ultimately show ?thesis by simp
qed

text \<open>Decimal rendering is one to one, so the label of the open button tells the count.\<close>

lemma str_nat_nonempty: "str_nat k \<noteq> []"
  by (subst str_nat.simps) simp

lemma str_nat_step:
  "\<not> k < 10 \<Longrightarrow> str_nat k = str_nat (k div 10) @ [digit_char (k mod 10)]"
  by (subst str_nat.simps) simp

lemma str_nat_long: "\<not> k < 10 \<Longrightarrow> 2 \<le> length (str_nat k)"
proof -
  assume a: "\<not> k < 10"
  have "0 < length (str_nat (k div 10))" by (simp add: str_nat_nonempty)
  then have "1 \<le> length (str_nat (k div 10))" by linarith
  with a show ?thesis by (simp add: str_nat_step)
qed

lemma str_nat_inj: "str_nat j = str_nat k \<Longrightarrow> j = k"
proof (induction j arbitrary: k rule: str_nat.induct)
  case (1 j)
  from "1.prems" have len: "length (str_nat j) = length (str_nat k)" by simp
  show ?case
  proof (cases "j < 10")
    case jl: True
    show ?thesis
    proof (cases "k < 10")
      case True
      with jl "1.prems" show ?thesis by (simp add: str_nat_digit digit_char_inj)
    next
      case False
      then have "2 \<le> length (str_nat k)" by (rule str_nat_long)
      with jl len show ?thesis by (simp add: str_nat_digit)
    qed
  next
    case jg: False
    show ?thesis
    proof (cases "k < 10")
      case True
      from jg have "2 \<le> length (str_nat j)" by (rule str_nat_long)
      with True len show ?thesis by (simp add: str_nat_digit)
    next
      case False
      from "1.prems" have "str_nat (j div 10) @ [digit_char (j mod 10)]
          = str_nat (k div 10) @ [digit_char (k mod 10)]"
        by (simp add: str_nat_step [OF jg] str_nat_step [OF False])
      then have a: "str_nat (j div 10) = str_nat (k div 10)"
        and b: "digit_char (j mod 10) = digit_char (k mod 10)"
        by simp_all
      from "1.IH" [OF jg a] have "j div 10 = k div 10" .
      moreover have "j mod 10 = k mod 10"
        using b by (intro digit_char_inj) simp_all
      ultimately show ?thesis by (metis div_mult_mod_eq)
    qed
  qed
qed

lemma digit_char_not_minus: "d < 10 \<Longrightarrow> digit_char d \<noteq> CHR ''-''"
  using digit_char_cases [of d] by (auto simp: digit_char_def)

lemma hd_str_nat: "hd (str_nat k) \<noteq> CHR ''-''"
proof (induction k rule: str_nat.induct)
  case (1 k)
  show ?case
  proof (cases "k < 10")
    case True
    then show ?thesis by (simp add: str_nat_digit digit_char_not_minus)
  next
    case False
    with "1.IH" show ?thesis by (simp add: str_nat_step hd_append str_nat_nonempty)
  qed
qed

lemma str_int_inj: "str_int a = str_int b \<Longrightarrow> a = b"
proof -
  assume eq: "str_int a = str_int b"
  consider "a < 0" "b < 0" | "a < 0" "\<not> b < 0" | "\<not> a < 0" "b < 0" | "\<not> a < 0" "\<not> b < 0"
    by blast
  then show ?thesis
  proof cases
    case 1
    with eq have "str_nat (nat (- a)) = str_nat (nat (- b))" by (simp add: str_int_def)
    then have "nat (- a) = nat (- b)" by (rule str_nat_inj)
    with 1 show ?thesis by simp
  next
    case 2
    with eq have "str_nat (nat b) = CHR ''-'' # str_nat (nat (- a))" by (simp add: str_int_def)
    then have "hd (str_nat (nat b)) = CHR ''-''" by simp
    with hd_str_nat show ?thesis by blast
  next
    case 3
    with eq have "str_nat (nat a) = CHR ''-'' # str_nat (nat (- b))" by (simp add: str_int_def)
    then have "hd (str_nat (nat a)) = CHR ''-''" by simp
    with hd_str_nat show ?thesis by blast
  next
    case 4
    with eq have "str_nat (nat a) = str_nat (nat b)" by (simp add: str_int_def)
    then have "nat a = nat b" by (rule str_nat_inj)
    with 4 show ?thesis by simp
  qed
qed

lemma open_label_eq: "(open_label s = open_label t) = (opened s = opened t)"
proof
  assume "open_label s = open_label t"
  then have "str_int (opened s + 1) = str_int (opened t + 1)" by (simp add: open_label_def)
  then have "opened s + 1 = opened t + 1" by (rule str_int_inj)
  then show "opened s = opened t" by simp
next
  assume "opened s = opened t"
  then show "open_label s = open_label t" by (simp add: open_label_def)
qed

section \<open>What a reset returns\<close>

lemma reset_game_result:
  assumes "1 \<le> nb"
  shows "\<exists>b. 1 \<le> b \<and> b \<le> nb \<and>
          reset_game nb raw now st =
            Inr \<lparr> n = nb, cols = DEFAULT_COLS,
                  payoff_per_box =
                    (case st of None \<Rightarrow> DEFAULT_PAYOFF_PER_BOX | Some s \<Rightarrow> payoff_per_box s),
                  bomb_idx = b, opened = 0, revealed = False, payoff = None, outcome = None,
                  run_id = strftime_run_id now \<rparr>"
proof -
  from randint_range [OF assms, of raw] obtain b
    where "randint 1 nb raw = Inr b" "1 \<le> b" "b \<le> nb" by blast
  then show ?thesis by (auto simp: reset_game_def)
qed

section \<open>What a run of the script does to the store\<close>

lemma script_run_Some:
  "script_run inp (Some s) =
     (if clicked inp = Some NewGame
      then new_game (n_val inp) (cols_val inp) (click_raw inp) (click_now inp)
             (sidebar_payoff (payoff_val inp) s)
      else Inr (stop (clicked inp) (open_next (clicked inp) (sidebar_payoff (payoff_val inp) s))))"
  by (simp add: script_run_def ensure_state_def st_button_def Let_def)

lemma script_run_None:
  "script_run inp None =
     (case reset_game DEFAULT_N (boot_raw inp) (boot_now inp) None of
        Inl e \<Rightarrow> Inl e
      | Inr s \<Rightarrow> script_run inp (Some s))"
  by (simp add: script_run_def ensure_state_def split: sum.splits)

lemma sidebar_payoff_eq: "sidebar_payoff v s = s\<lparr> payoff_per_box := v \<rparr>"
  by (simp add: sidebar_payoff_def)

lemma script_run_no_new_game:
  "no_new_game inp \<Longrightarrow>
     script_run inp (Some s) =
       Inr (stop (clicked inp) (open_next (clicked inp) (s\<lparr> payoff_per_box := payoff_val inp \<rparr>)))"
  by (simp add: script_run_Some no_new_game_def sidebar_payoff_eq)

lemma open_next_frame:
  "open_next ev s = s\<lparr> opened := opened (open_next ev s) \<rparr>"
  by (simp add: open_next_def)

lemma open_next_revealed: "revealed s \<Longrightarrow> open_next ev s = s"
  by (simp add: open_next_def st_button_def disabled_open_def)

lemma stop_revealed: "revealed s \<Longrightarrow> stop ev s = s"
  by (simp add: stop_def st_button_def disabled_stop_def)

lemma opened_open_next:
  "opened (open_next ev s) =
     (if ev = Some (OpenNext (open_label s)) \<and> \<not> revealed s \<and> opened s < n s
      then opened s + 1 else opened s)"
  by (auto simp: open_next_def st_button_def disabled_open_def)

lemma stop_config:
  "n (stop ev s) = n s \<and> cols (stop ev s) = cols s \<and> payoff_per_box (stop ev s) = payoff_per_box s
   \<and> opened (stop ev s) = opened s \<and> bomb_idx (stop ev s) = bomb_idx s \<and> run_id (stop ev s) = run_id s"
  by (simp add: stop_def compute_payoff_def)

lemma open_next_config:
  "n (open_next ev s) = n s \<and> cols (open_next ev s) = cols s
   \<and> payoff_per_box (open_next ev s) = payoff_per_box s
   \<and> bomb_idx (open_next ev s) = bomb_idx s \<and> run_id (open_next ev s) = run_id s
   \<and> revealed (open_next ev s) = revealed s"
  by (simp add: open_next_def)

lemma script_run_revealed:
  "revealed s \<Longrightarrow> no_new_game inp \<Longrightarrow>
     script_run inp (Some s) = Inr (s\<lparr> payoff_per_box := payoff_val inp \<rparr>)"
  by (simp add: script_run_no_new_game open_next_revealed stop_revealed)

lemma script_runs_revealed:
  assumes "revealed s" and "list_all no_new_game inps"
  shows "script_runs inps (Some s) =
           Inr (Some (s\<lparr> payoff_per_box :=
                          (if inps = [] then payoff_per_box s else payoff_val (last inps)) \<rparr>))"
  using assms
proof (induction inps arbitrary: s)
  case Nil
  then show ?case by simp
next
  case (Cons inp inps)
  from Cons.prems have a: "no_new_game inp" and b: "list_all no_new_game inps" by simp_all
  have r: "revealed (s\<lparr> payoff_per_box := payoff_val inp \<rparr>)" using Cons.prems(1) by simp
  from Cons.IH [OF r b] script_run_revealed [OF Cons.prems(1) a] show ?case by simp
qed

lemma script_runs_no_new_game:
  assumes "list_all no_new_game inps"
  shows "\<exists>s'. script_runs inps (Some s) = Inr (Some s')
            \<and> n s' = n s \<and> cols s' = cols s \<and> bomb_idx s' = bomb_idx s \<and> run_id s' = run_id s
            \<and> payoff_per_box s' = (if inps = [] then payoff_per_box s else payoff_val (last inps))
            \<and> opened s \<le> opened s'
            \<and> (if opened s \<le> n s then opened s' \<le> n s' else opened s' = opened s)
            \<and> (if revealed s then revealed s' \<and> opened s' = opened s else True)"
  using assms
proof (induction inps arbitrary: s)
  case Nil
  then show ?case by simp
next
  case (Cons inp inps)
  from Cons.prems have a: "no_new_game inp" and b: "list_all no_new_game inps" by simp_all
  define s1 where "s1 = stop (clicked inp)
              (open_next (clicked inp) (s\<lparr> payoff_per_box := payoff_val inp \<rparr>))"
  have run: "script_run inp (Some s) = Inr s1"
    unfolding s1_def by (rule script_run_no_new_game [OF a])
  have cfg: "n s1 = n s" "cols s1 = cols s" "bomb_idx s1 = bomb_idx s" "run_id s1 = run_id s"
    "payoff_per_box s1 = payoff_val inp"
    unfolding s1_def by (simp_all add: stop_config open_next_config)
  have op: "opened s1 =
      (if clicked inp = Some (OpenNext (open_label s)) \<and> \<not> revealed s \<and> opened s < n s
       then opened s + 1 else opened s)"
    unfolding s1_def by (simp add: stop_config opened_open_next open_label_def)
  have rev: "revealed s \<Longrightarrow> revealed s1"
    unfolding s1_def by (simp add: open_next_revealed stop_revealed)
  from Cons.IH [OF b, of s1] obtain s' where
    s': "script_runs inps (Some s1) = Inr (Some s')"
      "n s' = n s1" "cols s' = cols s1" "bomb_idx s' = bomb_idx s1" "run_id s' = run_id s1"
      "payoff_per_box s' = (if inps = [] then payoff_per_box s1 else payoff_val (last inps))"
      "opened s1 \<le> opened s'"
      "if opened s1 \<le> n s1 then opened s' \<le> n s' else opened s' = opened s1"
      "if revealed s1 then revealed s' \<and> opened s' = opened s1 else True"
    by blast
  have "script_runs (inp # inps) (Some s) = Inr (Some s')" using run s'(1) by simp
  moreover have "payoff_per_box s' =
      (if inp # inps = [] then payoff_per_box s else payoff_val (last (inp # inps)))"
    using s'(6) cfg(5) by simp
  moreover have "opened s \<le> opened s'" using s'(7) op by (simp split: if_splits)
  moreover have "if opened s \<le> n s then opened s' \<le> n s' else opened s' = opened s"
    using s'(8) s'(2) cfg(1) op by (simp split: if_splits)
  moreover have "if revealed s then revealed s' \<and> opened s' = opened s else True"
    using s'(9) rev op by (simp split: if_splits)
  ultimately show ?case using s'(2-5) cfg(1-4) by simp
qed

lemma script_runs_append:
  "script_runs (xs @ ys) st =
     (case script_runs xs st of Inl e \<Rightarrow> Inl e | Inr st' \<Rightarrow> script_runs ys st')"
  by (induction xs arbitrary: st) (auto split: sum.splits)

section \<open>Every state of a session is well-formed\<close>

lemma wf_sidebar_payoff: "wf_state s \<Longrightarrow> 1 \<le> v \<Longrightarrow> wf_state (sidebar_payoff v s)"
  by (simp add: sidebar_payoff_eq wf_state_def)

lemma wf_open_next: "wf_state s \<Longrightarrow> wf_state (open_next ev s)"
  by (auto simp: open_next_def st_button_def disabled_open_def wf_state_def)

lemma wf_stop: "wf_state s \<Longrightarrow> wf_state (stop ev s)"
  by (auto simp: stop_def st_button_def disabled_stop_def compute_payoff_def wf_state_def)

lemma wf_reset_game:
  assumes "1 \<le> nb" and "case st of None \<Rightarrow> True | Some s \<Rightarrow> 1 \<le> payoff_per_box s"
  shows "\<exists>s'. reset_game nb raw now st = Inr s' \<and> wf_state s'"
proof -
  from reset_game_result [OF assms(1), of raw now st] obtain b where
    "1 \<le> b" "b \<le> nb" and
    "reset_game nb raw now st =
       Inr \<lparr> n = nb, cols = DEFAULT_COLS,
             payoff_per_box =
               (case st of None \<Rightarrow> DEFAULT_PAYOFF_PER_BOX | Some s \<Rightarrow> payoff_per_box s),
             bomb_idx = b, opened = 0, revealed = False, payoff = None, outcome = None,
             run_id = strftime_run_id now \<rparr>"
    by blast
  with assms show ?thesis
    by (auto simp: wf_state_def DEFAULT_PAYOFF_PER_BOX_def split: option.splits)
qed

lemma wf_new_game:
  assumes "1 \<le> nb" and "1 \<le> payoff_per_box s"
  shows "\<exists>s'. new_game nb cv raw now s = Inr s' \<and> wf_state s'"
proof -
  from wf_reset_game [of nb "Some s" raw now] assms obtain s' where
    "reset_game nb raw now (Some s) = Inr s'" "wf_state s'" by auto
  then show ?thesis by (simp add: new_game_def wf_state_def)
qed

lemma wf_script_run_Some:
  assumes "wf_state s" and "valid_inputs inp"
  shows "\<exists>s'. script_run inp (Some s) = Inr s' \<and> wf_state s'"
proof (cases "clicked inp = Some NewGame")
  case True
  from assms(2) have "1 \<le> n_val inp" "1 \<le> payoff_per_box (sidebar_payoff (payoff_val inp) s)"
    by (simp_all add: valid_inputs_def sidebar_payoff_eq)
  from wf_new_game [OF this] True show ?thesis by (simp add: script_run_Some)
next
  case False
  from assms have "wf_state (sidebar_payoff (payoff_val inp) s)"
    by (simp add: wf_sidebar_payoff valid_inputs_def)
  then show ?thesis using False by (simp add: script_run_Some wf_open_next wf_stop)
qed

lemma wf_script_run:
  assumes "case st of None \<Rightarrow> True | Some s \<Rightarrow> wf_state s" and "valid_inputs inp"
  shows "\<exists>s'. script_run inp st = Inr s' \<and> wf_state s'"
proof (cases st)
  case None
  have "(1::int) \<le> DEFAULT_N" by (simp add: DEFAULT_N_def)
  from wf_reset_game [OF this, of None "boot_raw inp" "boot_now inp"] obtain s0 where
    s0: "reset_game DEFAULT_N (boot_raw inp) (boot_now inp) None = Inr s0" "wf_state s0"
    by auto
  from wf_script_run_Some [OF s0(2) assms(2)] s0(1) None show ?thesis
    by (simp add: script_run_None)
next
  case (Some s)
  with assms wf_script_run_Some show ?thesis by simp
qed

lemma wf_script_runs:
  assumes "list_all valid_inputs inps" and "case st of None \<Rightarrow> True | Some s \<Rightarrow> wf_state s"
  shows "\<exists>st'. script_runs inps st = Inr st' \<and> (case st' of None \<Rightarrow> True | Some s \<Rightarrow> wf_state s)"
  using assms
proof (induction inps arbitrary: st)
  case Nil
  then show ?case by simp
next
  case (Cons inp inps)
  from Cons.prems have v: "valid_inputs inp" and vs: "list_all valid_inputs inps" by simp_all
  from wf_script_run [OF Cons.prems(2) v] obtain s' where
    s': "script_run inp st = Inr s'" "wf_state s'" by blast
  from Cons.IH [OF vs, of "Some s'"] s'(2) obtain st' where
    "script_runs inps (Some s') = Inr st'" "case st' of None \<Rightarrow> True | Some s \<Rightarrow> wf_state s"
    by auto
  with s'(1) show ?case by simp
qed

section \<open>Concrete sessions\<close>

lemma strftime_t0: "strftime_run_id t0 = ''20260307-090542''"
  by (simp add: strftime_run_id_def t0_def zfill_def str_nat.simps digit_char_def)

lemmas run_defs = script_run_def ensure_state_def reset_game_def randint_def new_game_def
  sidebar_payoff_def open_next_def stop_def st_button_def disabled_open_def disabled_stop_def
  compute_payoff_def DEFAULT_N_def DEFAULT_COLS_def DEFAULT_PAYOFF_PER_BOX_def click_def
  click_open_def open_label_eq strftime_t0

lemma first_runs:
  "script_runs [click None 10, click (Some NewGame) 10] None = Inr (Some (scenario 5 0))"
  by (simp add: run_defs scenario_def)

lemma open_run:
  "k < 10 \<Longrightarrow> script_run (click_open k 10) (Some (scenario 5 k)) = Inr (scenario 5 (k + 1))"
  by (simp add: run_defs scenario_def)

lemma open_run_dropped:
  "j \<noteq> k \<Longrightarrow> script_run (click_open j 10) (Some (scenario 5 k)) = Inr (scenario 5 k)"
  by (simp add: run_defs scenario_def)

text \<open>
  The clicks of a browser that bring a new game to four opened boxes: every second click
  on "Open next box" comes under the label of the page before and is not delivered.
\<close>

lemma four_opened:
  "script_runs [click None 10, click (Some NewGame) 10, click_open 0 10, click_open 0 10,
     click_open 1 10, click_open 1 10, click_open 2 10, click_open 2 10, click_open 3 10] None
   = Inr (Some (scenario 5 4))"
proof -
  have "script_runs [click_open 0 10, click_open 0 10, click_open 1 10, click_open 1 10,
          click_open 2 10, click_open 2 10, click_open 3 10] (Some (scenario 5 0))
        = Inr (Some (scenario 5 4))"
    using open_run [of 0] open_run [of 1] open_run [of 2] open_run [of 3]
      open_run_dropped [of 0 1] open_run_dropped [of 1 2] open_run_dropped [of 2 3]
    by simp
  with first_runs
    script_runs_append [of "[click None 10, click (Some NewGame) 10]"
      "[click_open 0 10, click_open 0 10, click_open 1 10, click_open 1 10,
        click_open 2 10, click_open 2 10, click_open 3 10]" None]
  show ?thesis by simp
qed

lemmas view_defs = status_line_def open_label_def cell_label_def cell_text_def export_record_def
  disabled_open_def disabled_stop_def

section \<open>Payoff at stop\<close>

text \<open>
  Claim C1. A click on "Stop & Reveal" in a state that is not revealed and has at least
  one box opened reveals the state and leaves the count and the bomb where they were;
  if the bomb is among the opened boxes the outcome is "bombed" and the payoff 0,
  otherwise the outcome is "safe" and the payoff is the count times the payoff per box.
\<close>

theorem stop_payoff_rule:
  assumes "\<not> revealed s" and "1 \<le> opened s"
  shows "revealed (stop (Some StopReveal) s)
         \<and> opened (stop (Some StopReveal) s) = opened s
         \<and> bomb_idx (stop (Some StopReveal) s) = bomb_idx s
         \<and> (bomb_idx s \<le> opened s \<longrightarrow>
              outcome (stop (Some StopReveal) s) = Some ''bombed'' \<and> payoff (stop (Some StopReveal) s) = Some 0)
         \<and> (bomb_idx s > opened s \<longrightarrow>
              outcome (stop (Some StopReveal) s) = Some ''safe''
              \<and> payoff (stop (Some StopReveal) s) = Some (opened s * payoff_per_box s))"
  using assms by (simp add: stop_def st_button_def disabled_stop_def compute_payoff_def)

theorem stop_payoff_rule_witness:
  "stop (Some StopReveal) (scenario 5 4) =
     (scenario 5 4)\<lparr> outcome := Some ''safe'', payoff := Some 40, revealed := True \<rparr>
   \<and> stop (Some StopReveal) (scenario 5 5) =
     (scenario 5 5)\<lparr> outcome := Some ''bombed'', payoff := Some 0, revealed := True \<rparr>"
proof -
  have a: "\<not> revealed (scenario 5 4)" "1 \<le> opened (scenario 5 4)"
    by (simp_all add: scenario_def)
  have b: "\<not> revealed (scenario 5 5)" "1 \<le> opened (scenario 5 5)"
    by (simp_all add: scenario_def)
  from stop_payoff_rule [OF a] stop_payoff_rule [OF b] show ?thesis
    by (simp add: scenario_def stop_def st_button_def disabled_stop_def compute_payoff_def)
qed

section \<open>What is displayed before the reveal\<close>

text \<open>
  Claim C2. While the state is not revealed, the status line, the label of the open
  button, the cell labels and cell texts, the export record and the two disabled flags
  are the same whatever the bomb index, the outcome and the payoff in the store are; the
  export record shows its three placeholders in their place.
\<close>

theorem pre_reveal_views_hide_bomb:
  assumes "\<not> revealed s"
  shows "status_line (s\<lparr> bomb_idx := b, outcome := oc, payoff := p \<rparr>) = status_line s
       \<and> open_label (s\<lparr> bomb_idx := b, outcome := oc, payoff := p \<rparr>) = open_label s
       \<and> cell_label (s\<lparr> bomb_idx := b, outcome := oc, payoff := p \<rparr>) = cell_label s
       \<and> cell_text (s\<lparr> bomb_idx := b, outcome := oc, payoff := p \<rparr>) = cell_text s
       \<and> export_record (s\<lparr> bomb_idx := b, outcome := oc, payoff := p \<rparr>) = export_record s
       \<and> disabled_open (s\<lparr> bomb_idx := b, outcome := oc, payoff := p \<rparr>) = disabled_open s
       \<and> disabled_stop (s\<lparr> bomb_idx := b, outcome := oc, payoff := p \<rparr>) = disabled_stop s
       \<and> map_of (export_record s) ''bomb_index'' = Some (PyStr ''(hidden until reveal)'')
       \<and> map_of (export_record s) ''outcome'' = Some (PyStr ''(not revealed)'')
       \<and> map_of (export_record s) ''payoff'' = Some (PyStr ''(not revealed)'')"
  using assms by (simp add: view_defs fun_eq_iff)

theorem pre_reveal_views_hide_bomb_witness:
  "status_line (scenario 9 4) = status_line (scenario 5 4)
   \<and> status_line (scenario 5 4) = ''Boxes opened: **4 / 10**''
   \<and> cell_text (scenario 9 4) = cell_text (scenario 5 4)
   \<and> export_record (scenario 9 4) = export_record (scenario 5 4)
   \<and> map_of (export_record (scenario 5 4)) ''bomb_index'' = Some (PyStr ''(hidden until reveal)'')"
proof -
  have a: "\<not> revealed (scenario 5 4)" by (simp add: scenario_def)
  have b: "(scenario 5 4)\<lparr> bomb_idx := 9, outcome := None, payoff := None \<rparr> = scenario 9 4"
    by (simp add: scenario_def)
  have c: "status_line (scenario 5 4) = ''Boxes opened: **4 / 10**''"
    by (simp add: scenario_def status_line_def str_int_def str_nat.simps digit_char_def)
  from pre_reveal_views_hide_bomb [OF a, where b = 9 and oc = None and p = None] b c show ?thesis
    by simp
qed

section \<open>The revealed state is terminal\<close>

text \<open>
  Claim C3. In a revealed state the handlers of "Open next box" and "Stop & Reveal"
  return the state they got, whatever click is reported. Over any sequence of runs of the script
  without a click on "New Game", whatever the buttons clicked and the sidebar values,
  the state stays the one it was, revealed, but for the payoff per box, which the
  sidebar statement of each run sets to the sidebar's value (so nothing at all changes
  while that value is left alone).
\<close>

theorem revealed_terminal:
  assumes "revealed s" and "list_all no_new_game inps"
  shows "open_next ev s = s \<and> stop ev s = s
       \<and> script_runs inps (Some s) =
           Inr (Some (s\<lparr> payoff_per_box :=
                          (if inps = [] then payoff_per_box s else payoff_val (last inps)) \<rparr>))"
  using assms by (simp add: open_next_revealed stop_revealed script_runs_revealed)

theorem revealed_terminal_witness:
  "revealed (stop (Some StopReveal) (scenario 5 4))
   \<and> open_next (Some (OpenNext (open_label (scenario 5 4)))) (stop (Some StopReveal) (scenario 5 4))
      = stop (Some StopReveal) (scenario 5 4)
   \<and> stop (Some StopReveal) (stop (Some StopReveal) (scenario 5 4))
      = stop (Some StopReveal) (scenario 5 4)
   \<and> script_runs [click_open 4 10, click (Some StopReveal) 10]
        (Some (stop (Some StopReveal) (scenario 5 4)))
      = Inr (Some (stop (Some StopReveal) (scenario 5 4)))"
proof -
  let ?s = "stop (Some StopReveal) (scenario 5 4)"
  let ?inps = "[click_open 4 10, click (Some StopReveal) 10]"
  have a: "revealed ?s"
    by (simp add: stop_def st_button_def disabled_stop_def scenario_def)
  have b: "list_all no_new_game ?inps" by (simp add: no_new_game_def click_def click_open_def)
  have c: "payoff_per_box ?s = 10" by (simp add: stop_config scenario_def)
  from revealed_terminal [OF a b, of "Some (OpenNext (open_label (scenario 5 4)))"]
    revealed_terminal [OF a b, of "Some StopReveal"] a c
  show ?thesis by (simp add: click_def)
qed

section \<open>The configuration between two resets\<close>

text \<open>
  Claim C4, as the code has it. The handlers of the two buttons leave the number of
  boxes, the grid columns and the payoff per box alone. Over every sequence of runs
  without a click on "New Game", the number of boxes and the grid columns keep their
  values, and the payoff per box is the sidebar's value of the last run (its own value
  when there is no run). A run started by a click on "Stop & Reveal" that is enabled
  first stores the sidebar's value of that run and then stops: the payoff is 0 when the
  bomb is among the opened boxes, and otherwise the count times the sidebar's value of
  that run.
\<close>

theorem config_between_resets:
  "n (open_next ev s) = n s \<and> cols (open_next ev s) = cols s
   \<and> payoff_per_box (open_next ev s) = payoff_per_box s
   \<and> n (stop ev s) = n s \<and> cols (stop ev s) = cols s
   \<and> payoff_per_box (stop ev s) = payoff_per_box s
   \<and> (list_all no_new_game inps \<longrightarrow>
        (\<exists>s'. script_runs inps (Some s) = Inr (Some s') \<and> n s' = n s \<and> cols s' = cols s
             \<and> payoff_per_box s' =
                 (if inps = [] then payoff_per_box s else payoff_val (last inps))))
   \<and> (clicked inp = Some StopReveal \<and> \<not> disabled_stop s \<longrightarrow>
        script_run inp (Some s)
          = Inr (stop (Some StopReveal) (s\<lparr> payoff_per_box := payoff_val inp \<rparr>))
        \<and> payoff (stop (Some StopReveal) (s\<lparr> payoff_per_box := payoff_val inp \<rparr>))
          = Some (if bomb_idx s \<le> opened s then 0 else opened s * payoff_val inp))"
proof -
  have a: "list_all no_new_game inps \<longrightarrow>
        (\<exists>s'. script_runs inps (Some s) = Inr (Some s') \<and> n s' = n s \<and> cols s' = cols s
             \<and> payoff_per_box s' =
                 (if inps = [] then payoff_per_box s else payoff_val (last inps)))"
  proof
    assume "list_all no_new_game inps"
    from script_runs_no_new_game [OF this, of s] show
      "\<exists>s'. script_runs inps (Some s) = Inr (Some s') \<and> n s' = n s \<and> cols s' = cols s
             \<and> payoff_per_box s' =
                 (if inps = [] then payoff_per_box s else payoff_val (last inps))"
      by blast
  qed
  have b: "clicked inp = Some StopReveal \<and> \<not> disabled_stop s \<longrightarrow>
        script_run inp (Some s)
          = Inr (stop (Some StopReveal) (s\<lparr> payoff_per_box := payoff_val inp \<rparr>))
        \<and> payoff (stop (Some StopReveal) (s\<lparr> payoff_per_box := payoff_val inp \<rparr>))
          = Some (if bomb_idx s \<le> opened s then 0 else opened s * payoff_val inp)"
    by (simp add: script_run_Some sidebar_payoff_eq open_next_def stop_def st_button_def
        disabled_stop_def compute_payoff_def)
  from a b show ?thesis by (simp add: stop_config open_next_config)
qed

theorem config_between_resets_witness:
  "script_runs [click None 20, click_open 0 20] (Some (scenario 5 0))
     = Inr (Some ((scenario 5 1)\<lparr> payoff_per_box := 20 \<rparr>))
   \<and> script_run (click (Some StopReveal) 30) (Some ((scenario 5 1)\<lparr> payoff_per_box := 20 \<rparr>))
     = Inr ((scenario 5 1)\<lparr> payoff_per_box := 30, outcome := Some ''safe'',
              payoff := Some 30, revealed := True \<rparr>)
   \<and> script_run (click (Some StopReveal) 30) (Some (scenario 5 5))
     = Inr ((scenario 5 5)\<lparr> payoff_per_box := 30, outcome := Some ''bombed'',
              payoff := Some 0, revealed := True \<rparr>)"
proof -
  let ?inps = "[click None 20, click_open 0 20]"
  let ?s = "(scenario 5 1)\<lparr> payoff_per_box := 20 \<rparr>"
  have a: "list_all no_new_game ?inps" by (simp add: no_new_game_def click_def click_open_def)
  have b: "clicked (click (Some StopReveal) 30) = Some StopReveal" "\<not> disabled_stop ?s"
    "\<not> disabled_stop (scenario 5 5)"
    by (simp_all add: click_def disabled_stop_def scenario_def)
  have c: "script_runs ?inps (Some (scenario 5 0)) = Inr (Some ?s)"
    by (simp add: run_defs scenario_def)
  from config_between_resets [of "Some StopReveal" "scenario 5 0" ?inps "click (Some StopReveal) 30"]
    config_between_resets [of "Some StopReveal" ?s "[]" "click (Some StopReveal) 30"]
    config_between_resets [of "Some StopReveal" "scenario 5 5" "[]" "click (Some StopReveal) 30"]
    a b c
  show ?thesis
    by (simp add: click_def scenario_def stop_def st_button_def disabled_stop_def
        compute_payoff_def)
qed

text \<open>
  The payoff per box is not fixed at the start of a session. A session starts with 10
  per box; with the sidebar reading 20 in the runs that follow, one box is opened and
  the stop pays 20, not 10. It is the same whether the runs are only the two clicks or
  a run without a click, started by the edit of the sidebar, comes first.
\<close>

theorem config_immutable_counterexample:
  "script_runs [click None 10, click (Some NewGame) 10] None = Inr (Some (scenario 5 0))
   \<and> script_runs [click_open 0 20, click (Some StopReveal) 20] (Some (scenario 5 0))
      = Inr (Some ((scenario 5 1)\<lparr> payoff_per_box := 20, outcome := Some ''safe'',
                     payoff := Some 20, revealed := True \<rparr>))
   \<and> script_runs [click None 20, click_open 0 20, click (Some StopReveal) 20]
        (Some (scenario 5 0))
      = Inr (Some ((scenario 5 1)\<lparr> payoff_per_box := 20, outcome := Some ''safe'',
                     payoff := Some 20, revealed := True \<rparr>))
   \<and> payoff_per_box ((scenario 5 1)\<lparr> payoff_per_box := 20, outcome := Some ''safe'',
                         payoff := Some 20, revealed := True \<rparr>)
      \<noteq> payoff_per_box (scenario 5 0)
   \<and> payoff ((scenario 5 1)\<lparr> payoff_per_box := 20, outcome := Some ''safe'',
                 payoff := Some 20, revealed := True \<rparr>)
      \<noteq> Some (opened (scenario 5 1) * payoff_per_box (scenario 5 0))"
proof -
  have "script_runs [click_open 0 20, click (Some StopReveal) 20] (Some (scenario 5 0))
      = Inr (Some ((scenario 5 1)\<lparr> payoff_per_box := 20, outcome := Some ''safe'',
                     payoff := Some 20, revealed := True \<rparr>))"
    by (simp add: run_defs scenario_def)
  moreover
  have "script_runs [click None 20, click_open 0 20, click (Some StopReveal) 20]
        (Some (scenario 5 0))
      = Inr (Some ((scenario 5 1)\<lparr> payoff_per_box := 20, outcome := Some ''safe'',
                     payoff := Some 20, revealed := True \<rparr>))"
    by (simp add: run_defs scenario_def)
  ultimately show ?thesis using first_runs by (simp add: scenario_def)
qed

section \<open>The state after a reset\<close>

text \<open>
  Claim C5. With at least 10 boxes asked for, the reset returns a state (it does not
  raise) whose bomb index is between 1 and the number of boxes, with no box opened, not
  revealed, and outcome and payoff both \<^verbatim>\<open>None\<close>, whatever the generator draws. A run
  of the script started by a click on "New Game", with sidebar values within the widgets'
  bounds, returns such a state for the number of boxes, the grid columns and the payoff
  per box of the sidebar.
\<close>

theorem reset_game_fresh_state:
  "(10 \<le> nb \<longrightarrow>
      (\<exists>s. reset_game nb raw now st = Inr s
           \<and> 1 \<le> bomb_idx s \<and> bomb_idx s \<le> nb \<and> n s = nb
           \<and> opened s = 0 \<and> revealed s = False \<and> outcome s = None \<and> payoff s = None))
   \<and> (valid_inputs inp \<and> clicked inp = Some NewGame \<longrightarrow>
      (\<exists>s. script_run inp st = Inr s
           \<and> n s = n_val inp \<and> cols s = cols_val inp \<and> payoff_per_box s = payoff_val inp
           \<and> 1 \<le> bomb_idx s \<and> bomb_idx s \<le> n s
           \<and> opened s = 0 \<and> revealed s = False \<and> outcome s = None \<and> payoff s = None))"
proof -
  have a: "10 \<le> nb \<longrightarrow>
      (\<exists>s. reset_game nb raw now st = Inr s
           \<and> 1 \<le> bomb_idx s \<and> bomb_idx s \<le> nb \<and> n s = nb
           \<and> opened s = 0 \<and> revealed s = False \<and> outcome s = None \<and> payoff s = None)"
  proof
    assume "10 \<le> nb"
    then have "1 \<le> nb" by simp
    from reset_game_result [OF this, of raw now st] show
      "\<exists>s. reset_game nb raw now st = Inr s
           \<and> 1 \<le> bomb_idx s \<and> bomb_idx s \<le> nb \<and> n s = nb
           \<and> opened s = 0 \<and> revealed s = False \<and> outcome s = None \<and> payoff s = None"
      by auto
  qed
  have b: "valid_inputs inp \<and> clicked inp = Some NewGame \<longrightarrow>
      (\<exists>s. script_run inp st = Inr s
           \<and> n s = n_val inp \<and> cols s = cols_val inp \<and> payoff_per_box s = payoff_val inp
           \<and> 1 \<le> bomb_idx s \<and> bomb_idx s \<le> n s
           \<and> opened s = 0 \<and> revealed s = False \<and> outcome s = None \<and> payoff s = None)"
  proof
    assume h: "valid_inputs inp \<and> clicked inp = Some NewGame"
    then have nv: "1 \<le> n_val inp" by (simp add: valid_inputs_def)
    have "(1::int) \<le> DEFAULT_N" by (simp add: DEFAULT_N_def)
    from reset_game_result [OF this, of "boot_raw inp" "boot_now inp" None] obtain s0 where
      s0: "reset_game DEFAULT_N (boot_raw inp) (boot_now inp) None = Inr s0" by blast
    define s1 where "s1 = (case st of None \<Rightarrow> s0 | Some s \<Rightarrow> s)"
    have run: "script_run inp st =
        new_game (n_val inp) (cols_val inp) (click_raw inp) (click_now inp)
          (sidebar_payoff (payoff_val inp) s1)"
      using h s0 unfolding s1_def
      by (cases st) (simp_all add: script_run_None script_run_Some)
    from reset_game_result [OF nv, of "click_raw inp" "click_now inp"
        "Some (sidebar_payoff (payoff_val inp) s1)"]
    show "\<exists>s. script_run inp st = Inr s
           \<and> n s = n_val inp \<and> cols s = cols_val inp \<and> payoff_per_box s = payoff_val inp
           \<and> 1 \<le> bomb_idx s \<and> bomb_idx s \<le> n s
           \<and> opened s = 0 \<and> revealed s = False \<and> outcome s = None \<and> payoff s = None"
      unfolding run by (auto simp: new_game_def sidebar_payoff_eq)
  qed
  from a b show ?thesis by simp
qed

theorem reset_game_fresh_state_witness:
  "reset_game 10 4 t0 None = Inr (scenario 5 0)
   \<and> script_run (click (Some NewGame) 10) (Some ((scenario 3 6)\<lparr> revealed := True \<rparr>))
     = Inr (scenario 5 0)"
proof -
  have a: "(10::int) \<le> 10" by simp
  have b: "valid_inputs (click (Some NewGame) 10)"
    "clicked (click (Some NewGame) 10) = Some NewGame"
    by (simp_all add: valid_inputs_def click_def)
  have c: "reset_game 10 4 t0 None = Inr (scenario 5 0)"
    "script_run (click (Some NewGame) 10) (Some ((scenario 3 6)\<lparr> revealed := True \<rparr>))
     = Inr (scenario 5 0)"
    by (simp_all add: run_defs scenario_def)
  from reset_game_fresh_state [of 10 4 t0 None "click (Some NewGame) 10"]
    reset_game_fresh_state [of 10 4 t0 "Some ((scenario 3 6)\<lparr> revealed := True \<rparr>)"
      "click (Some NewGame) 10"] a b c
  show ?thesis by simp
qed

section \<open>Counting opened boxes\<close>

text \<open>
  What holds of the count on every path. A click that is delivered in a state that is
  not revealed and has a closed box left adds exactly 1 and changes nothing else. The
  handler never decreases the count, adds at most 1, keeps it at most the number of
  boxes, and leaves it alone in a revealed state; the same holds over every sequence of
  runs without a click on "New Game", and in every state that a session reaches the
  count is between 0 and the number of boxes.
\<close>

lemma opened_count_bounds:
  "(ev = Some (OpenNext (open_label s)) \<and> \<not> revealed s \<and> opened s < n s \<longrightarrow>
      open_next ev s = s\<lparr> opened := opened s + 1 \<rparr>)
   \<and> opened s \<le> opened (open_next ev s)
   \<and> opened (open_next ev s) \<le> opened s + 1
   \<and> (opened s \<le> n s \<longrightarrow> opened (open_next ev s) \<le> n (open_next ev s))
   \<and> (revealed s \<longrightarrow> opened (open_next ev s) = opened s)
   \<and> (list_all no_new_game inps \<longrightarrow>
        (\<exists>s'. script_runs inps (Some s) = Inr (Some s')
             \<and> opened s \<le> opened s'
             \<and> (if opened s \<le> n s then opened s' \<le> n s' else opened s' = opened s)
             \<and> (revealed s \<longrightarrow> opened s' = opened s)))
   \<and> (list_all valid_inputs hist \<and> script_runs hist None = Inr (Some s) \<longrightarrow>
        0 \<le> opened s \<and> opened s \<le> n s)"
proof -
  have a: "ev = Some (OpenNext (open_label s)) \<and> \<not> revealed s \<and> opened s < n s \<longrightarrow>
      open_next ev s = s\<lparr> opened := opened s + 1 \<rparr>"
    by (simp add: open_next_def st_button_def disabled_open_def)
  have c: "opened s \<le> opened (open_next ev s)" "opened (open_next ev s) \<le> opened s + 1"
    by (simp_all add: opened_open_next)
  have d: "opened s \<le> n s \<longrightarrow> opened (open_next ev s) \<le> n (open_next ev s)"
    by (simp add: opened_open_next open_next_config)
  have e: "revealed s \<longrightarrow> opened (open_next ev s) = opened s"
    by (simp add: opened_open_next)
  have f: "list_all no_new_game inps \<longrightarrow>
        (\<exists>s'. script_runs inps (Some s) = Inr (Some s')
             \<and> opened s \<le> opened s'
             \<and> (if opened s \<le> n s then opened s' \<le> n s' else opened s' = opened s)
             \<and> (revealed s \<longrightarrow> opened s' = opened s))"
  proof
    assume "list_all no_new_game inps"
    from script_runs_no_new_game [OF this, of s] obtain s' where
      "script_runs inps (Some s) = Inr (Some s')" "opened s \<le> opened s'"
      "if opened s \<le> n s then opened s' \<le> n s' else opened s' = opened s"
      "if revealed s then revealed s' \<and> opened s' = opened s else True"
      by blast
    then show "\<exists>s'. script_runs inps (Some s) = Inr (Some s')
             \<and> opened s \<le> opened s'
             \<and> (if opened s \<le> n s then opened s' \<le> n s' else opened s' = opened s)
             \<and> (revealed s \<longrightarrow> opened s' = opened s)"
      by (auto split: if_splits)
  qed
  have g: "list_all valid_inputs hist \<and> script_runs hist None = Inr (Some s) \<longrightarrow>
        0 \<le> opened s \<and> opened s \<le> n s"
  proof
    assume h: "list_all valid_inputs hist \<and> script_runs hist None = Inr (Some s)"
    then have v: "list_all valid_inputs hist" by simp
    from wf_script_runs [OF v, of None] h have "wf_state s" by auto
    then show "0 \<le> opened s \<and> opened s \<le> n s" by (simp add: wf_state_def)
  qed
  from a c d e f g show ?thesis by blast
qed

text \<open>
  The gestures of a browser are runs of the script: what holds over every list of runs
  holds over every series of gestures.
\<close>

lemma browser_runs_script_runs:
  "browser_runs steps (s, shown) = Inr (s', shown') \<Longrightarrow>
     \<exists>inps. map (\<lambda>i. i\<lparr> clicked := None \<rparr>) inps = map (\<lambda>(g, i). i\<lparr> clicked := None \<rparr>) steps
          \<and> script_runs inps (Some s) = Inr (Some s')"
proof (induction steps arbitrary: s shown)
  case Nil
  then show ?case by simp
next
  case (Cons step steps)
  obtain g inp where step: "step = (g, inp)" by (cases step)
  from Cons.prems step obtain s1 shown1 where
    run: "script_run (inp\<lparr> clicked := event shown g \<rparr>) (Some s) = Inr s1"
    and rest: "browser_runs steps (s1, shown1) = Inr (s', shown')"
    by (auto split: sum.splits)
  from Cons.IH [OF rest] obtain inps where
    inps: "map (\<lambda>i. i\<lparr> clicked := None \<rparr>) inps = map (\<lambda>(g, i). i\<lparr> clicked := None \<rparr>) steps"
      "script_runs inps (Some s1) = Inr (Some s')"
    by blast
  have "map (\<lambda>i. i\<lparr> clicked := None \<rparr>) (inp\<lparr> clicked := event shown g \<rparr> # inps)
        = map (\<lambda>(g, i). i\<lparr> clicked := None \<rparr>) (step # steps)"
    using inps(1) step by simp
  moreover have "script_runs (inp\<lparr> clicked := event shown g \<rparr> # inps) (Some s) = Inr (Some s')"
    using run inps(2) by simp
  ultimately show ?case by blast
qed

text \<open>
  After a click on "Open next box" that opened a box, the page still shows the button
  under the label of the count before, and the run that the next click on it starts
  builds the button under the label of the new count: that click is not delivered,
  although the state is not revealed and a closed box may be left. The sidebar values
  of the two runs do not matter.
\<close>

lemma open_click_then_dropped:
  assumes "\<not> revealed s" and "opened s < n s"
  shows "browser_runs [(ClickOpen, inp), (ClickOpen, inp')] (s, open_label s)
         = Inr (s\<lparr> payoff_per_box := payoff_val inp', opened := opened s + 1 \<rparr>,
                open_label (s\<lparr> opened := opened s + 1 \<rparr>))"
proof -
  let ?s1 = "s\<lparr> payoff_per_box := payoff_val inp, opened := opened s + 1 \<rparr>"
  have lab: "open_label (s\<lparr> payoff_per_box := payoff_val inp \<rparr>) = open_label s"
    by (simp add: open_label_eq)
  have run1: "script_run (inp\<lparr> clicked := event (open_label s) ClickOpen \<rparr>) (Some s) = Inr ?s1"
    using assms
    by (simp add: script_run_Some event_def sidebar_payoff_eq open_next_def stop_def
        st_button_def disabled_open_def lab)
  have page1: "page_open (inp\<lparr> clicked := event (open_label s) ClickOpen \<rparr>) (Some s)
      = Inr (open_label s)"
    by (simp add: page_open_def ensure_state_def event_def sidebar_payoff_eq st_button_def
        open_label_eq Let_def)
  have run2: "script_run (inp'\<lparr> clicked := event (open_label s) ClickOpen \<rparr>) (Some ?s1)
      = Inr (s\<lparr> payoff_per_box := payoff_val inp', opened := opened s + 1 \<rparr>)"
    by (simp add: script_run_Some event_def sidebar_payoff_eq open_next_def stop_def
        st_button_def open_label_eq)
  have page2: "page_open (inp'\<lparr> clicked := event (open_label s) ClickOpen \<rparr>) (Some ?s1)
      = Inr (open_label (s\<lparr> opened := opened s + 1 \<rparr>))"
    by (simp add: page_open_def ensure_state_def event_def sidebar_payoff_eq st_button_def
        open_label_eq Let_def)
  from run1 page1 run2 page2 show ?thesis by simp
qed

text \<open>
  Claim C6 asks that every click on "Open next box" made while the state is not revealed
  and a closed box is left adds exactly 1 to the count. The script does not do that. A
  browser loads the page, starts a new game of 10 boxes and clicks "Open next box" twice
  in a row: one box is open, not two, and the second click came while the state was not
  revealed and nine boxes were closed. Four clicks in a row open two boxes.
\<close>

theorem open_click_dropped:
  "browser_session (click None 10)
     [(ClickNewGame, click None 10), (ClickOpen, click None 10), (ClickOpen, click None 10)]
     = Inr (scenario 5 1, open_label (scenario 5 1))
   \<and> browser_session (click None 10)
     [(ClickNewGame, click None 10), (ClickOpen, click None 10), (ClickOpen, click None 10),
      (ClickOpen, click None 10), (ClickOpen, click None 10)]
     = Inr (scenario 5 2, open_label (scenario 5 2))
   \<and> browser_session (click None 10)
     [(ClickNewGame, click None 10), (ClickOpen, click None 10)]
     = Inr (scenario 5 1, open_label (scenario 5 0))
   \<and> \<not> disabled_open (scenario 5 1)"
  by (simp add: browser_session_def page_open_def event_def run_defs scenario_def)

section \<open>Stop with no box opened\<close>

text \<open>
  Claim C7. With no box opened, a click on "Stop & Reveal" changes nothing: the handler
  returns the state it got, a whole run started by that click only stores the sidebar's
  payoff value (nothing at all when that value is the stored one), and a well-formed
  state stays not revealed with outcome and payoff \<^verbatim>\<open>None\<close>.
\<close>

theorem stop_rejected_at_zero:
  assumes "opened s = 0"
  shows "stop ev s = s
       \<and> script_run (inp\<lparr> clicked := Some StopReveal \<rparr>) (Some s)
           = Inr (sidebar_payoff (payoff_val inp) s)
       \<and> script_run (inp\<lparr> clicked := Some StopReveal, payoff_val := payoff_per_box s \<rparr>) (Some s)
           = Inr s
       \<and> (wf_state s \<longrightarrow>
            \<not> revealed (stop ev s) \<and> outcome (stop ev s) = None \<and> payoff (stop ev s) = None)"
  using assms
  by (simp add: stop_def st_button_def disabled_stop_def script_run_def ensure_state_def
      open_next_def sidebar_payoff_def wf_state_def)

theorem stop_rejected_at_zero_witness:
  "stop (Some StopReveal) (scenario 5 0) = scenario 5 0
   \<and> script_run (click (Some StopReveal) 10) (Some (scenario 5 0)) = Inr (scenario 5 0)
   \<and> revealed (scenario 5 0) = False \<and> outcome (scenario 5 0) = None
   \<and> payoff (scenario 5 0) = None"
proof -
  have a: "opened (scenario 5 0) = 0" by (simp add: scenario_def)
  have w: "wf_state (scenario 5 0)" by (simp add: scenario_def wf_state_def)
  have b: "(click (Some StopReveal) 10)
             \<lparr> clicked := Some StopReveal, payoff_val := payoff_per_box (scenario 5 0) \<rparr>
           = click (Some StopReveal) 10"
    by (simp add: click_def scenario_def)
  from stop_rejected_at_zero [OF a, of "Some StopReveal" "click (Some StopReveal) 10"] b w
  show ?thesis
    by (simp add: scenario_def)
qed

section \<open>Cell labels\<close>

text \<open>
  Claim C8. For every box index, the cell label of a state that is not revealed is the
  green square when the index is at most the count of opened boxes and the white square
  otherwise; of a revealed state it is the bomb at the bomb index, the green square at
  any other index up to the count, and the white square otherwise. The three labels are
  different strings, and the label depends on the state only through the count, the
  revealed flag and, once revealed, the bomb index.
\<close>

theorem cell_label_cases:
  "(\<not> revealed s \<longrightarrow> cell_label s i = (if i \<le> opened s then GREEN else BLANK))
   \<and> (revealed s \<longrightarrow>
        cell_label s i =
          (if i = bomb_idx s then BOMB
           else if i \<le> opened s \<and> i \<noteq> bomb_idx s then GREEN else BLANK))
   \<and> BOMB \<noteq> GREEN \<and> BOMB \<noteq> BLANK \<and> GREEN \<noteq> BLANK
   \<and> (opened s' = opened s \<and> revealed s' = revealed s
        \<and> (revealed s \<longrightarrow> bomb_idx s' = bomb_idx s)
      \<longrightarrow> cell_label s' i = cell_label s i)"
  by (simp add: cell_label_def BOMB_def GREEN_def BLANK_def)

theorem cell_label_cases_witness:
  "cell_label (scenario 5 4) 4 = GREEN \<and> cell_label (scenario 5 4) 5 = BLANK
   \<and> cell_label ((scenario 5 7)\<lparr> revealed := True \<rparr>) 5 = BOMB
   \<and> cell_label ((scenario 5 7)\<lparr> revealed := True \<rparr>) 6 = GREEN
   \<and> cell_label ((scenario 5 7)\<lparr> revealed := True \<rparr>) 8 = BLANK
   \<and> cell_label (scenario 9 4) 4 = cell_label (scenario 5 4) 4"
  using cell_label_cases [of "scenario 5 4" 4 "scenario 9 4"]
    cell_label_cases [of "scenario 5 4" 5 "scenario 5 4"]
    cell_label_cases [of "(scenario 5 7)\<lparr> revealed := True \<rparr>" 5 "scenario 5 4"]
    cell_label_cases [of "(scenario 5 7)\<lparr> revealed := True \<rparr>" 6 "scenario 5 4"]
    cell_label_cases [of "(scenario 5 7)\<lparr> revealed := True \<rparr>" 8 "scenario 5 4"]
  by (simp add: scenario_def)

section \<open>What a reset keeps and what it replaces\<close>

text \<open>
  Claim C9, as the code has it. A reset that does not raise takes the number of boxes
  from its argument and sets the grid columns to 10; the payoff per box is the one of the
  store it runs on, or 10 on an empty store; the run id is the clock reading to the
  second, in the format of line 26. Nothing else of the previous store matters: two
  stores with the same payoff per box give the same result. The run id is not always a
  new one: two resets, whatever their arguments, draws and stores, set the same run id
  exactly when their clocks read the same second.
\<close>

theorem reset_game_frame:
  assumes "1 \<le> nb"
  shows "(\<exists>s'. reset_game nb raw now st = Inr s' \<and> n s' = nb \<and> cols s' = 10
              \<and> payoff_per_box s' = (case st of None \<Rightarrow> 10 | Some s \<Rightarrow> payoff_per_box s)
              \<and> run_id s' = strftime_run_id now)
       \<and> (payoff_per_box t = payoff_per_box s \<longrightarrow>
            reset_game nb raw now (Some t) = reset_game nb raw now (Some s))
       \<and> (reset_game nb raw now st = Inr s1 \<and> reset_game nb' raw' now' st' = Inr s2
            \<and> clock_reading now \<and> clock_reading now' \<longrightarrow>
            (run_id s2 = run_id s1) = (now' = now))"
proof -
  from reset_game_result [OF assms, of raw now st]
  have a: "\<exists>s'. reset_game nb raw now st = Inr s' \<and> n s' = nb \<and> cols s' = 10
              \<and> payoff_per_box s' = (case st of None \<Rightarrow> 10 | Some s \<Rightarrow> payoff_per_box s)
              \<and> run_id s' = strftime_run_id now"
    by (auto simp: DEFAULT_COLS_def DEFAULT_PAYOFF_PER_BOX_def split: option.splits)
  have b: "payoff_per_box t = payoff_per_box s \<longrightarrow>
            reset_game nb raw now (Some t) = reset_game nb raw now (Some s)"
    by (simp add: reset_game_def split: sum.splits)
  have c: "reset_game nb raw now st = Inr s1 \<and> reset_game nb' raw' now' st' = Inr s2
            \<and> clock_reading now \<and> clock_reading now' \<longrightarrow>
            (run_id s2 = run_id s1) = (now' = now)"
  proof
    assume h: "reset_game nb raw now st = Inr s1 \<and> reset_game nb' raw' now' st' = Inr s2
            \<and> clock_reading now \<and> clock_reading now'"
    then have "run_id s1 = strftime_run_id now" and "run_id s2 = strftime_run_id now'"
      by (auto simp: reset_game_def split: sum.splits)
    with h strftime_run_id_inj [of now' now] show "(run_id s2 = run_id s1) = (now' = now)"
      by auto
  qed
  from a b c show ?thesis by simp
qed

theorem reset_game_frame_witness:
  "reset_game 10 4 t0 (Some ((scenario 5 7)\<lparr> cols := 15, payoff_per_box := 25 \<rparr>))
     = Inr ((scenario 5 0)\<lparr> payoff_per_box := 25 \<rparr>)
   \<and> reset_game 10 4 t0 (Some ((scenario 2 3)\<lparr> payoff_per_box := 25 \<rparr>))
     = Inr ((scenario 5 0)\<lparr> payoff_per_box := 25 \<rparr>)
   \<and> reset_game 10 4 t0 None = Inr (scenario 5 0)
   \<and> reset_game 10 4 (t0\<lparr> second := 43 \<rparr>) (Some (scenario 5 0))
     = Inr ((scenario 5 0)\<lparr> run_id := ''20260307-090543'' \<rparr>)
   \<and> run_id ((scenario 5 0)\<lparr> run_id := ''20260307-090543'' \<rparr>) \<noteq> run_id (scenario 5 0)"
proof -
  have a: "(1::int) \<le> 10" by simp
  have b: "payoff_per_box ((scenario 2 3)\<lparr> payoff_per_box := 25 \<rparr>)
           = payoff_per_box ((scenario 5 7)\<lparr> cols := 15, payoff_per_box := 25 \<rparr>)"
    by simp
  have c: "clock_reading t0" "clock_reading (t0\<lparr> second := 43 \<rparr>)"
    by (simp_all add: clock_reading_def t0_def)
  have t1: "strftime_run_id (t0\<lparr> second := 43 \<rparr>) = ''20260307-090543''"
    by (simp add: strftime_run_id_def t0_def zfill_def str_nat.simps digit_char_def)
  have d: "reset_game 10 4 t0 (Some ((scenario 5 7)\<lparr> cols := 15, payoff_per_box := 25 \<rparr>))
     = Inr ((scenario 5 0)\<lparr> payoff_per_box := 25 \<rparr>)"
    "reset_game 10 4 t0 None = Inr (scenario 5 0)"
    "reset_game 10 4 (t0\<lparr> second := 43 \<rparr>) (Some (scenario 5 0))
     = Inr ((scenario 5 0)\<lparr> run_id := ''20260307-090543'' \<rparr>)"
    by (simp_all add: run_defs t1 scenario_def)
  from reset_game_frame [OF a, where raw = 4 and now = t0
      and st = "Some ((scenario 5 7)\<lparr> cols := 15, payoff_per_box := 25 \<rparr>)"
      and t = "(scenario 2 3)\<lparr> payoff_per_box := 25 \<rparr>"
      and s = "(scenario 5 7)\<lparr> cols := 15, payoff_per_box := 25 \<rparr>"]
    reset_game_frame [OF a, where raw = 4 and now = t0 and st = None
      and ?s1.0 = "scenario 5 0" and nb' = 10 and raw' = 4 and now' = "t0\<lparr> second := 43 \<rparr>"
      and st' = "Some (scenario 5 0)"
      and ?s2.0 = "(scenario 5 0)\<lparr> run_id := ''20260307-090543'' \<rparr>"]
    b c d
  show ?thesis by (simp add: t0_def)
qed

text \<open>
  The run id is not fresh at every reset. The page is loaded and the first reset sets the
  run id of its second; a reset within the same second, for another game with another
  bomb, sets the id that the store already has.
\<close>

theorem fresh_run_id_counterexample:
  "reset_game 10 4 t0 None = Inr (scenario 5 0)
   \<and> reset_game 10 7 t0 (Some (scenario 5 0)) = Inr (scenario 8 0)
   \<and> run_id (scenario 8 0) = run_id (scenario 5 0)"
  by (simp add: run_defs scenario_def)

section \<open>A safe stop pays at least one box\<close>

text \<open>
  Claim C10. In every state that a browser session reaches through runs whose sidebar
  values are within the widgets' bounds, an enabled "Stop & Reveal" with outcome "safe"
  sets the payoff to the count times the payoff per box, which is at least the payoff
  per box and greater than 0, since at least one box is opened and the payoff per box is
  at least 1.
\<close>

theorem safe_payoff_positive:
  assumes "list_all valid_inputs inps"
    and "script_runs inps None = Inr (Some s)"
    and "\<not> disabled_stop s"
    and "outcome (stop (Some StopReveal) s) = Some ''safe''"
  shows "payoff (stop (Some StopReveal) s) = Some (opened s * payoff_per_box s)
       \<and> payoff_per_box (stop (Some StopReveal) s) \<le> opened s * payoff_per_box s
       \<and> 0 < opened s * payoff_per_box s
       \<and> 1 \<le> opened s \<and> 1 \<le> payoff_per_box s"
proof -
  from wf_script_runs [OF assms(1), of None] assms(2) have wf: "wf_state s" by auto
  from wf assms(3) have o: "1 \<le> opened s" and p: "1 \<le> payoff_per_box s"
    by (simp_all add: wf_state_def disabled_stop_def)
  from mult_right_mono [OF o, of "payoff_per_box s"] p
  have le: "payoff_per_box s \<le> opened s * payoff_per_box s" by simp
  from assms(3,4) have pay: "payoff (stop (Some StopReveal) s) = Some (opened s * payoff_per_box s)"
    and ppb: "payoff_per_box (stop (Some StopReveal) s) = payoff_per_box s"
    by (auto simp: stop_def st_button_def compute_payoff_def split: if_splits)
  from le p o pay ppb show ?thesis by simp
qed

theorem safe_payoff_positive_witness:
  "script_runs [click None 10, click (Some NewGame) 10, click_open 0 10, click_open 0 10,
     click_open 1 10, click_open 1 10, click_open 2 10, click_open 2 10, click_open 3 10] None
     = Inr (Some (scenario 5 4))
   \<and> outcome (stop (Some StopReveal) (scenario 5 4)) = Some ''safe''
   \<and> payoff (stop (Some StopReveal) (scenario 5 4)) = Some 40
   \<and> payoff_per_box (stop (Some StopReveal) (scenario 5 4)) = 10"
proof -
  let ?inps = "[click None 10, click (Some NewGame) 10, click_open 0 10, click_open 0 10,
     click_open 1 10, click_open 1 10, click_open 2 10, click_open 2 10, click_open 3 10]"
  have a: "list_all valid_inputs ?inps" by (simp add: valid_inputs_def click_def click_open_def)
  have c: "\<not> disabled_stop (scenario 5 4)" by (simp add: disabled_stop_def scenario_def)
  have d: "outcome (stop (Some StopReveal) (scenario 5 4)) = Some ''safe''"
    by (simp add: run_defs scenario_def)
  from safe_payoff_positive [OF a four_opened c d] four_opened d show ?thesis
    by (simp add: scenario_def stop_def st_button_def disabled_stop_def compute_payoff_def)
qed

end
